theory Spec2Isabelle
  imports Complex_Main "HOL-Library.Multiset"
begin

section \<open>The BOM generator \<^verbatim>\<open>scripts/bom_bfr_format.py\<close>\<close>

text \<open>
  The script turns a KiCad netlist into one aggregate bill of materials and one order
  sheet per supplier. It runs top to bottom at module level; the model below is that run
  as a function \<open>main\<close> of the command line, the outside world and the host library's
  answers. Python integers are \<open>int\<close>, strings are \<open>string\<close>, an exception that nobody
  catches ends the run with \<open>Raised\<close>.
\<close>

subsection \<open>Components and the netlist object\<close>

text \<open>
  A component as the host library hands it over; the script only reads it, through the
  four getters that \<open>myEqu\<close> calls. \<open>getRef\<close> tells two equal-looking parts apart.
\<close>

record comp =
  getRef :: string
  getValue :: string
  getPartName :: string
  getFootprint :: string
  getDNP :: bool

text \<open>
  The object \<open>net\<close>: what \<open>getInterestingComponents(excludeBOM=True)\<close> returns, and the
  field lookup \<open>getGroupField(group, name)\<close>, which belongs to the host library and is
  taken as it comes. The library answers the empty string for a field nobody has.
\<close>

record netlist =
  getInterestingComponents :: "comp list"
  getGroupField :: "comp list \<Rightarrow> string \<Rightarrow> string"

text \<open>Lines 44-62: the equivalence installed as \<open>comp.__eq__\<close>.\<close>

definition myEqu :: "comp \<Rightarrow> comp \<Rightarrow> bool" where
  "myEqu self other =
     (if getValue self \<noteq> getValue other then False
      else if getPartName self \<noteq> getPartName other then False
      else if getFootprint self \<noteq> getFootprint other then False
      else if getDNP self \<noteq> getDNP other then False
      else True)"

text \<open>
  Modelled from the spec: the grouping routine \<open>groupComponents\<close> of the host module
  \<open>kicad_netlist_reader\<close> is imported by the script and is not among its sources. The
  spec describes it as partitioning the interesting components into groups with an
  overridable equivalence predicate, each group an ordered collection of equivalent
  components: the first ungrouped component opens a group and takes every later
  component equivalent to it, and the rest is grouped the same way. The script's
  override of \<open>__eq__\<close> is the predicate passed in.
\<close>

fun groupComponents :: "('c \<Rightarrow> 'c \<Rightarrow> bool) \<Rightarrow> 'c list \<Rightarrow> 'c list list" where
  "groupComponents equ [] = []"
| "groupComponents equ (c # cs) =
     (c # filter (\<lambda>ci. equ ci c) cs) # groupComponents equ (filter (\<lambda>ci. \<not> equ ci c) cs)"

subsection \<open>The Python builtins the script relies on\<close>

datatype py_error = ValueError | ZeroDivisionError | IOError

text \<open>
  \<open>int(s)\<close> on ASCII text, as Python 3 reads it: surrounding whitespace (tab, newline,
  vertical tab, form feed, carriage return, blank) is dropped, one sign is allowed, then
  decimal digits, where a single underscore may stand between two digits. Anything else
  is the ValueError of the source, here \<open>None\<close>.
\<close>

definition py_isspace :: "char \<Rightarrow> bool" where
  "py_isspace c = (let n = (of_char c :: nat) in (9 \<le> n \<and> n \<le> 13) \<or> n = 32)"

definition py_isdigit :: "char \<Rightarrow> bool" where
  "py_isdigit c = (let n = (of_char c :: nat) in 48 \<le> n \<and> n \<le> 57)"

definition digit_val :: "char \<Rightarrow> nat" where
  "digit_val c = of_char c - 48"

definition py_strip :: "string \<Rightarrow> string" where
  "py_strip s = rev (dropWhile py_isspace (rev (dropWhile py_isspace s)))"

fun py_digits :: "nat \<Rightarrow> string \<Rightarrow> nat option" where
  "py_digits acc [] = None"
| "py_digits acc [c] = (if py_isdigit c then Some (acc * 10 + digit_val c) else None)"
| "py_digits acc (c # d # cs) =
     (if \<not> py_isdigit c then None
      else if d = CHR 0x5F then py_digits (acc * 10 + digit_val c) cs
      else py_digits (acc * 10 + digit_val c) (d # cs))"

definition py_int :: "string \<Rightarrow> int option" where
  "py_int s =
     (case py_strip s of
        [] \<Rightarrow> None
      | c # cs \<Rightarrow>
          if c = CHR 0x2D then map_option (\<lambda>n. - int n) (py_digits 0 cs)
          else if c = CHR 0x2B then map_option int (py_digits 0 cs)
          else map_option int (py_digits 0 (c # cs)))"

text \<open>
  Text made of ASCII characters only. On such text \<open>py_int\<close> above is \<open>int\<close> itself;
  beyond ASCII Python also drops other white space and reads other decimal digits, which
  a character of this model cannot tell, so the properties of a run below are stated
  for quantity texts and a board count that are ASCII.
\<close>

definition is_ascii :: "string \<Rightarrow> bool" where
  "is_ascii s = (\<forall>c\<in>set s. (of_char c :: nat) < 128)"

text \<open>\<open>str(n)\<close> for an integer: its decimal digits, a minus sign in front when negative.\<close>

fun str_nat :: "nat \<Rightarrow> string" where
  "str_nat n =
     (if n < 10 then [char_of (48 + n)]
      else str_nat (n div 10) @ [char_of (48 + n mod 10)])"

declare str_nat.simps [simp del]

definition str_int :: "int \<Rightarrow> string" where
  "str_int i = (if i < 0 then CHR 0x2D # str_nat (nat (- i)) else str_nat (nat i))"

text \<open>A row holds strings and integers side by side; \<open>str\<close> makes text of either.\<close>

datatype cell = S string | I int

fun py_str :: "cell \<Rightarrow> string" where
  "py_str (S s) = s"
| "py_str (I i) = str_int i"

text \<open>
  \<open>csv.writer(f, lineterminator='\n', delimiter=',', quotechar='"', quoting=QUOTE_ALL)\<close>:
  every field goes between double quotes, a double quote inside a field is written twice,
  fields are joined by commas and the line ends with a newline.
\<close>

definition csv_escape :: "string \<Rightarrow> string" where
  "csv_escape s = concat (map (\<lambda>c. if c = CHR 0x22 then [c, c] else [c]) s)"

definition csv_field :: "string \<Rightarrow> string" where
  "csv_field s = CHR 0x22 # csv_escape s @ [CHR 0x22]"

fun csv_join :: "string list \<Rightarrow> string" where
  "csv_join [] = []"
| "csv_join [f] = f"
| "csv_join (f # g # fs) = f @ CHR 0x2C # csv_join (g # fs)"

definition csv_line :: "string list \<Rightarrow> string" where
  "csv_line fs = csv_join (map csv_field fs) @ [CHR 0x0A]"

subsection \<open>The outside world\<close>

text \<open>
  What a run can change: the files it wrote (by path), the text on standard output and
  standard error, and whether \<open>sys.stdout\<close> has been closed.
\<close>

record world =
  files :: "string \<Rightarrow> string option"
  stdout :: string
  stderr :: string
  stdout_closed :: bool

text \<open>
  What a run is given: the script's own path \<open>__file__\<close>, the text Python prints for the
  object \<open>sys.stderr\<close>, which paths can be opened for writing, the order in which a
  Python set hands out its elements (given here in insertion order), and the host
  library's netlist constructor, which either stops the run or returns the object.
\<close>

datatype outcome = Finished | Exited int | Raised py_error

record env =
  script_file :: string
  stderr_repr :: string
  can_open :: "string \<Rightarrow> bool"
  set_order :: "string list \<Rightarrow> string list"
  read_netlist :: "string \<Rightarrow> outcome + netlist"

text \<open>A file object: a file on disk opened for writing, or \<open>sys.stdout\<close>.\<close>

datatype handle = File string | Stdout

text \<open>\<open>kicad_utils.open_file_writeUTF8(path, 'w')\<close>: an empty file, or IOError.\<close>

definition open_file_writeUTF8 :: "env \<Rightarrow> string \<Rightarrow> world \<Rightarrow> py_error + handle \<times> world" where
  "open_file_writeUTF8 e path w =
     (if can_open e path then Inr (File path, w\<lparr>files := (files w)(path \<mapsto> [])\<rparr>)
      else Inl IOError)"

text \<open>Writing to standard output once it is closed raises ValueError.\<close>

definition print_stdout :: "string \<Rightarrow> world \<Rightarrow> py_error \<times> world + world" where
  "print_stdout s w =
     (if stdout_closed w then Inl (ValueError, w) else Inr (w\<lparr>stdout := stdout w @ s\<rparr>))"

definition write_text :: "handle \<Rightarrow> string \<Rightarrow> world \<Rightarrow> py_error \<times> world + world" where
  "write_text h s w =
     (case h of
        File p \<Rightarrow>
          Inr (w\<lparr>files := (files w)(p \<mapsto> (case files w p of None \<Rightarrow> s | Some t \<Rightarrow> t @ s))\<rparr>)
      | Stdout \<Rightarrow> print_stdout s w)"

definition close :: "handle \<Rightarrow> world \<Rightarrow> world" where
  "close h w = (case h of File p \<Rightarrow> w | Stdout \<Rightarrow> w\<lparr>stdout_closed := True\<rparr>)"

subsection \<open>The script\<close>

text \<open>Lines 41-42 and 90-94.\<close>

definition fromNetlistText :: "string \<Rightarrow> string" where
  "fromNetlistText aText = aText"

definition writerow :: "handle \<Rightarrow> cell list \<Rightarrow> world \<Rightarrow> py_error \<times> world + world" where
  "writerow acsvwriter columns w =
     write_text acsvwriter (csv_line (map (\<lambda>col. fromNetlistText (py_str col)) columns)) w"

text \<open>
  Lines 102-107 and again 136-141: open the output file; on IOError print a message
  (the call names \<open>sys.stderr\<close> as one more thing to print, so the message goes to
  standard output) and use \<open>sys.stdout\<close> as the file.
\<close>

definition open_output :: "env \<Rightarrow> string \<Rightarrow> string \<Rightarrow> world \<Rightarrow> py_error \<times> world + handle \<times> world" where
  "open_output e argv2 path w =
     (case open_file_writeUTF8 e path w of
        Inr hw \<Rightarrow> Inr hw
      | Inl err \<Rightarrow>
          (case print_stdout
                  (script_file e @ '' : '' @ ''Can'' @ [CHR 0x27] @ ''t open output file for writing: ''
                     @ argv2 @ '' '' @ stderr_repr e @ [CHR 0x0A]) w of
             Inl ew \<Rightarrow> Inl ew
           | Inr w' \<Rightarrow> Inr (Stdout, w')))"

text \<open>Lines 119-122 and again 148-151: the quantity per unit, 1 when \<open>int\<close> raises.\<close>

definition qty_per_unit :: "netlist \<Rightarrow> comp list \<Rightarrow> int" where
  "qty_per_unit net grp =
     (case py_int (getGroupField net grp ''Qty/Unit'') of None \<Rightarrow> 1 | Some n \<Rightarrow> n)"

text \<open>
  Lines 124 and again 152: the expression
  \<^verbatim>\<open>(len(group) * int(sys.argv[3])) // per + (1 if len(group)%per else 0)\<close>,
  evaluated left to right: \<open>int\<close> may raise ValueError, then \<open>//\<close> ZeroDivisionError.
\<close>

definition units :: "string \<Rightarrow> comp list \<Rightarrow> int \<Rightarrow> py_error + int" where
  "units argv3 grp per =
     (case py_int argv3 of
        None \<Rightarrow> Inl ValueError
      | Some boards \<Rightarrow>
          if per = 0 then Inl ZeroDivisionError
          else Inr ((int (length grp) * boards) div per
                    + (if int (length grp) mod per \<noteq> 0 then 1 else 0)))"

text \<open>Lines 117-130: the row of one group in the aggregate file.\<close>

definition bom_row :: "netlist \<Rightarrow> string \<Rightarrow> comp list \<Rightarrow> py_error + cell list" where
  "bom_row net argv3 grp =
     (let per = qty_per_unit net grp in
      case units argv3 grp per of
        Inl err \<Rightarrow> Inl err
      | Inr u \<Rightarrow>
          let src = getGroupField net grp ''Order From'' in
          Inr ([S (getGroupField net grp ''Pretty Name''), I per, I u,
                S (getGroupField net grp ''Cost/Unit'')]
               @ (if src \<noteq> '''' then
                    [S (getGroupField net grp (src @ '' Link'')),
                     S (getGroupField net grp (src @ '' P/N''))]
                  else [])))"

text \<open>\<open>suppliers_in_use.add(src)\<close>, the set kept in insertion order.\<close>

definition set_add :: "string \<Rightarrow> string list \<Rightarrow> string list" where
  "set_add x xs = (if x \<in> set xs then xs else xs @ [x])"

text \<open>Lines 116-131: the loop over the groups, collecting the suppliers.\<close>

fun bom_loop ::
  "netlist \<Rightarrow> string \<Rightarrow> handle \<Rightarrow> comp list list \<Rightarrow> string list \<Rightarrow> world
     \<Rightarrow> py_error \<times> world + string list \<times> world" where
  "bom_loop net argv3 out [] suppliers_in_use w = Inr (suppliers_in_use, w)"
| "bom_loop net argv3 out (grp # rest) suppliers_in_use w =
     (case bom_row net argv3 grp of
        Inl err \<Rightarrow> Inl (err, w)
      | Inr row \<Rightarrow>
          (let src = getGroupField net grp ''Order From'';
               suppliers = (if src \<noteq> '''' then set_add src suppliers_in_use else suppliers_in_use)
           in case writerow out row w of
                Inl ew \<Rightarrow> Inl ew
              | Inr w' \<Rightarrow> bom_loop net argv3 out rest suppliers w'))"

definition bom_header :: "cell list" where
  "bom_header =
     [S ''Component'', S ''Qty per Unit'', S ''Units'', S ''Cost/Unit'', S ''Link'', S ''Part Number'']"

text \<open>\<open>sys.argv[2][:-4]\<close>: the argument without its last four characters.\<close>

definition stem :: "string \<Rightarrow> string" where
  "stem argv2 = take (length argv2 - 4) argv2"

definition bom_path :: "string \<Rightarrow> string" where
  "bom_path argv2 = stem argv2 @ ''_BOM.csv''"

definition order_path :: "string \<Rightarrow> string \<Rightarrow> string" where
  "order_path argv2 supplier = stem argv2 @ ''_'' @ supplier @ ''-order.csv''"

text \<open>Lines 102-133: the aggregate file.\<close>

definition write_bom ::
  "env \<Rightarrow> netlist \<Rightarrow> string \<Rightarrow> string \<Rightarrow> comp list list \<Rightarrow> world
     \<Rightarrow> py_error \<times> world + string list \<times> world" where
  "write_bom e net argv2 argv3 grouped w =
     (case open_output e argv2 (bom_path argv2) w of
        Inl ew \<Rightarrow> Inl ew
      | Inr (bfr_bom_file, w1) \<Rightarrow>
          (case writerow bfr_bom_file bom_header w1 of
             Inl ew \<Rightarrow> Inl ew
           | Inr w2 \<Rightarrow>
               (case bom_loop net argv3 bfr_bom_file grouped [] w2 of
                  Inl ew \<Rightarrow> Inl ew
                | Inr (suppliers_in_use, w3) \<Rightarrow> Inr (suppliers_in_use, close bfr_bom_file w3))))"

text \<open>Lines 146-155: the row of one group in a supplier's order file.\<close>

definition order_row :: "netlist \<Rightarrow> string \<Rightarrow> string \<Rightarrow> comp list \<Rightarrow> py_error + cell list" where
  "order_row net argv3 supplier grp =
     (let per = qty_per_unit net grp in
      case units argv3 grp per of
        Inl err \<Rightarrow> Inl err
      | Inr u \<Rightarrow>
          Inr [S (getGroupField net grp ''Pretty Name''), I u,
               S (getGroupField net grp (supplier @ '' P/N'')),
               S (getGroupField net grp (supplier @ '' Link''))])"

text \<open>Lines 144-155: the inner loop, over the groups ordered from this supplier.\<close>

fun order_loop ::
  "netlist \<Rightarrow> string \<Rightarrow> handle \<Rightarrow> string \<Rightarrow> comp list list \<Rightarrow> world \<Rightarrow> py_error \<times> world + world" where
  "order_loop net argv3 out supplier [] w = Inr w"
| "order_loop net argv3 out supplier (grp # rest) w =
     (if getGroupField net grp ''Order From'' = supplier then
        (case order_row net argv3 supplier grp of
           Inl err \<Rightarrow> Inl (err, w)
         | Inr row \<Rightarrow>
             (case writerow out row w of
                Inl ew \<Rightarrow> Inl ew
              | Inr w' \<Rightarrow> order_loop net argv3 out supplier rest w'))
      else order_loop net argv3 out supplier rest w)"

definition order_header :: "cell list" where
  "order_header = [S ''Component'', S ''Order Qty'', S ''Part Number'', S ''Link'']"

text \<open>Lines 135-156: one order file per supplier in use.\<close>

fun write_orders ::
  "env \<Rightarrow> netlist \<Rightarrow> string \<Rightarrow> string \<Rightarrow> comp list list \<Rightarrow> string list \<Rightarrow> world
     \<Rightarrow> py_error \<times> world + world" where
  "write_orders e net argv2 argv3 grouped [] w = Inr w"
| "write_orders e net argv2 argv3 grouped (supplier # rest) w =
     (case open_output e argv2 (order_path argv2 supplier) w of
        Inl ew \<Rightarrow> Inl ew
      | Inr (order_bom_file, w1) \<Rightarrow>
          (case writerow order_bom_file order_header w1 of
             Inl ew \<Rightarrow> Inl ew
           | Inr w2 \<Rightarrow>
               (case order_loop net argv3 order_bom_file supplier grouped w2 of
                  Inl ew \<Rightarrow> Inl ew
                | Inr w3 \<Rightarrow>
                    write_orders e net argv2 argv3 grouped rest (close order_bom_file w3))))"

text \<open>Line 70: \<open>print\<close> puts a blank between its arguments and a newline at the end.\<close>

definition usage :: "env \<Rightarrow> string" where
  "usage e =
     ''Usage '' @ '' '' @ script_file e @ '' '' @ ''<generic_netlist.xml> <output.csv> <QTY>''
       @ [CHR 0x0A]"

text \<open>
  The whole run. Lines 79-87 compute column names that nothing reads afterwards and
  are left out.
\<close>

definition main :: "env \<Rightarrow> string list \<Rightarrow> world \<Rightarrow> outcome \<times> world" where
  "main e argv w =
     (if length argv \<noteq> 4 then (Exited 1, w\<lparr>stderr := stderr w @ usage e\<rparr>)
      else
        (case read_netlist e (argv ! 1) of
           Inl stop \<Rightarrow> (stop, w)
         | Inr net \<Rightarrow>
             (let components = getInterestingComponents net;
                  grouped = groupComponents myEqu components
              in case write_bom e net (argv ! 2) (argv ! 3) grouped w of
                   Inl (err, w') \<Rightarrow> (Raised err, w')
                 | Inr (suppliers_in_use, w1) \<Rightarrow>
                     (case write_orders e net (argv ! 2) (argv ! 3) grouped
                             (set_order e suppliers_in_use) w1 of
                        Inl (err, w') \<Rightarrow> (Raised err, w')
                      | Inr w2 \<Rightarrow> (Finished, w2)))))"

subsection \<open>Reading quoted CSV back\<close>

text \<open>
  A reader for the format the writer is set to, used to say what "preserved as one
  field" means: every field stands between double quotes, a doubled quote inside is one
  quote, a comma ends a field only outside the quotes, a newline outside the quotes
  ends the row. Text that is not of this form is rejected.
\<close>

datatype csv_state = FieldStart | InField | AfterQuote

fun csv_read_from ::
  "csv_state \<Rightarrow> string \<Rightarrow> string list \<Rightarrow> string list list \<Rightarrow> string \<Rightarrow> string list list option" where
  "csv_read_from FieldStart cur row rows [] = (if row = [] then Some rows else None)"
| "csv_read_from FieldStart cur row rows (c # cs) =
     (if c = CHR 0x22 then csv_read_from InField [] row rows cs
      else if c = CHR 0x0A \<and> row = [] then csv_read_from FieldStart [] [] (rows @ [[]]) cs
      else None)"
| "csv_read_from InField cur row rows [] = None"
| "csv_read_from InField cur row rows (c # cs) =
     (if c = CHR 0x22 then csv_read_from AfterQuote cur row rows cs
      else csv_read_from InField (cur @ [c]) row rows cs)"
| "csv_read_from AfterQuote cur row rows [] = None"
| "csv_read_from AfterQuote cur row rows (c # cs) =
     (if c = CHR 0x22 then csv_read_from InField (cur @ [c]) row rows cs
      else if c = CHR 0x2C then csv_read_from FieldStart [] (row @ [cur]) rows cs
      else if c = CHR 0x0A then csv_read_from FieldStart [] [] (rows @ [row @ [cur]]) cs
      else None)"

definition csv_read :: "string \<Rightarrow> string list list option" where
  "csv_read s = csv_read_from FieldStart [] [] [] s"

subsection \<open>A small netlist for the examples\<close>

definition R1 :: comp where
  "R1 = \<lparr>getRef = ''R1'', getValue = ''10k'', getPartName = ''R'', getFootprint = ''0603'',
          getDNP = False\<rparr>"

definition R2 :: comp where
  "R2 = \<lparr>getRef = ''R2'', getValue = ''10k'', getPartName = ''R'', getFootprint = ''0603'',
          getDNP = False\<rparr>"

definition C1 :: comp where
  "C1 = \<lparr>getRef = ''C1'', getValue = ''100n'', getPartName = ''C'', getFootprint = ''0603'',
          getDNP = False\<rparr>"

text \<open>
  The resistors come four to a unit (or whatever text \<open>q\<close> says) from Digikey; the
  capacitor has no quantity and no supplier filled in.
\<close>

definition example_fields :: "string \<Rightarrow> comp list \<Rightarrow> string \<Rightarrow> string" where
  "example_fields q g name =
     (case g of
        [] \<Rightarrow> ''''
      | c # cs \<Rightarrow>
          (case map_of
                  (if getPartName c = ''R'' then
                     [(''Pretty Name'', ''Resistor, 10k''), (''Qty/Unit'', q), (''Cost/Unit'', ''0.10''),
                      (''Order From'', ''Digikey''), (''Digikey P/N'', ''311-10.0KHRCT-ND''),
                      (''Digikey Link'', ''https://www.digikey.com/10k'')]
                   else
                     [(''Pretty Name'', ''Capacitor 100n''), (''Cost/Unit'', ''0.05'')]) name of
             None \<Rightarrow> ''''
           | Some v \<Rightarrow> v))"

definition example_net :: "string \<Rightarrow> netlist" where
  "example_net q = \<lparr>getInterestingComponents = [R1, C1, R2], getGroupField = example_fields q\<rparr>"

definition example_env :: "bool \<Rightarrow> string \<Rightarrow> env" where
  "example_env writable q =
     \<lparr>script_file = ''bom_bfr_format.py'', stderr_repr = ''<stderr>'',
      can_open = (\<lambda>path. writable), set_order = (\<lambda>xs. xs),
      read_netlist = (\<lambda>path. Inr (example_net q))\<rparr>"

definition example_world :: world where
  "example_world = \<lparr>files = (\<lambda>path. None), stdout = [], stderr = [], stdout_closed = False\<rparr>"

definition example_argv :: "string \<Rightarrow> string list" where
  "example_argv boards = [''bom_bfr_format.py'', ''board.xml'', ''board.csv'', boards]"




section \<open>Properties\<close>

subsection \<open>Facts about the operations\<close>

lemma units_ok:
  "py_int argv3 = Some boards \<Longrightarrow> per \<noteq> 0 \<Longrightarrow>
     units argv3 g per = Inr ((int (length g) * boards) div per
                               + (if int (length g) mod per \<noteq> 0 then 1 else 0))"
  by (simp add: units_def)

lemma units_zero: "py_int argv3 = Some boards \<Longrightarrow> units argv3 g 0 = Inl ZeroDivisionError"
  by (simp add: units_def)

lemma writerow_File:
  "writerow (File p) row w =
     Inr (w\<lparr>files := (files w)(p \<mapsto> (case files w p of None \<Rightarrow> csv_line (map py_str row)
                                       | Some t \<Rightarrow> t @ csv_line (map py_str row)))\<rparr>)"
  by (simp add: writerow_def write_text_def fromNetlistText_def)

lemma writerow_Stdout:
  "\<not> stdout_closed w \<Longrightarrow>
     writerow Stdout row w = Inr (w\<lparr>stdout := stdout w @ csv_line (map py_str row)\<rparr>)"
  by (simp add: writerow_def write_text_def print_stdout_def fromNetlistText_def)

lemma writerow_open:
  "(out = Stdout \<longrightarrow> \<not> stdout_closed w) \<Longrightarrow>
     \<exists>w'. writerow out row w = Inr w' \<and> stdout_closed w' = stdout_closed w"
  by (cases out) (simp_all add: writerow_File writerow_Stdout)

lemma bom_loop_zero:
  "py_int argv3 = Some boards \<Longrightarrow> \<exists>g\<in>set gs. qty_per_unit net g = 0 \<Longrightarrow>
   (out = Stdout \<longrightarrow> \<not> stdout_closed w) \<Longrightarrow>
     \<exists>w'. bom_loop net argv3 out gs sups w = Inl (ZeroDivisionError, w')"
proof (induction gs arbitrary: sups w)
  case Nil
  then show ?case by simp
next
  case (Cons g gs)
  show ?case
  proof (cases "qty_per_unit net g = 0")
    case True
    with Cons.prems(1) have "bom_row net argv3 g = Inl ZeroDivisionError"
      by (simp add: bom_row_def units_zero)
    then show ?thesis by simp
  next
    case False
    with Cons.prems(1) obtain row where row: "bom_row net argv3 g = Inr row"
      by (simp add: bom_row_def units_ok Let_def)
    from writerow_open [OF Cons.prems(3)] obtain w' where
      w': "writerow out row w = Inr w'" "stdout_closed w' = stdout_closed w"
      by blast
    from False Cons.prems(2) have "\<exists>g\<in>set gs. qty_per_unit net g = 0"
      by auto
    from Cons.IH [OF Cons.prems(1) this, of w'] w'(2) Cons.prems(3)
    have "\<exists>w''. bom_loop net argv3 out gs
             (if getGroupField net g ''Order From'' \<noteq> '''' then set_add (getGroupField net g ''Order From'') sups else sups) w'
            = Inl (ZeroDivisionError, w'')"
      by simp
    with row w'(1) show ?thesis
      by (simp add: Let_def)
  qed
qed

lemma open_output_open:
  "\<not> stdout_closed w \<Longrightarrow>
     \<exists>out w'. open_output e argv2 path w = Inr (out, w') \<and> \<not> stdout_closed w'"
  by (simp add: open_output_def open_file_writeUTF8_def print_stdout_def)

lemma write_bom_zero:
  assumes "py_int argv3 = Some boards" "\<exists>g\<in>set gs. qty_per_unit net g = 0" "\<not> stdout_closed w"
  shows "\<exists>w'. write_bom e net argv2 argv3 gs w = Inl (ZeroDivisionError, w')"
proof -
  from open_output_open [OF assms(3)] obtain out w1 where
    o: "open_output e argv2 (bom_path argv2) w = Inr (out, w1)" "\<not> stdout_closed w1"
    by blast
  from writerow_open [of out w1 bom_header] o(2) obtain w2 where
    h: "writerow out bom_header w1 = Inr w2" "\<not> stdout_closed w2"
    by auto
  from bom_loop_zero [OF assms(1) assms(2), of out w2 "[]"] h(2) obtain w3 where
    "bom_loop net argv3 out gs [] w2 = Inl (ZeroDivisionError, w3)"
    by auto
  with o(1) h(1) show ?thesis
    by (simp add: write_bom_def)
qed


lemma bom_path_not_order: "bom_path argv2 \<noteq> order_path argv2 s"
proof
  assume "bom_path argv2 = order_path argv2 s"
  then have "''BOM.csv'' = s @ ''-order.csv''"
    by (simp add: bom_path_def order_path_def)
  then have "length ''BOM.csv'' = length (s @ ''-order.csv'')"
    by (rule arg_cong)
  then show False by simp
qed

lemma close_files: "files (close out w) = files w"
  by (cases out) (simp_all add: close_def)

lemma writerow_elsewhere:
  "out \<noteq> File p \<Longrightarrow>
     (case writerow out row w of
        Inl (err, w') \<Rightarrow> files w' p = files w p
      | Inr w' \<Rightarrow> files w' p = files w p)"
  by (cases out) (auto simp: writerow_def write_text_def print_stdout_def)

lemma open_output_elsewhere:
  "p \<noteq> path \<Longrightarrow>
     (case open_output e argv2 path w of
        Inl (err, w') \<Rightarrow> files w' p = files w p
      | Inr (out, w') \<Rightarrow> files w' p = files w p \<and> out \<noteq> File p)"
  by (auto simp: open_output_def open_file_writeUTF8_def print_stdout_def)

lemma order_loop_elsewhere:
  "out \<noteq> File p \<Longrightarrow>
     (case order_loop net argv3 out s gs w of
        Inl (err, w') \<Rightarrow> files w' p = files w p
      | Inr w' \<Rightarrow> files w' p = files w p)"
proof (induction gs arbitrary: w)
  case Nil
  then show ?case by simp
next
  case (Cons g gs)
  show ?case
  proof (cases "getGroupField net g ''Order From'' = s")
    case False
    with Cons.IH [OF Cons.prems, where w = w] show ?thesis by simp
  next
    case True
    show ?thesis
    proof (cases "order_row net argv3 s g")
      case (Inl err)
      with True show ?thesis by simp
    next
      case (Inr row)
      show ?thesis
      proof (cases "writerow out row w")
        case (Inl ew)
        with writerow_elsewhere [OF Cons.prems, where row = row and w = w] True Inr show ?thesis
          by (simp split: prod.splits)
      next
        case w': (Inr w')
        with writerow_elsewhere [OF Cons.prems, where row = row and w = w] have "files w' p = files w p"
          by simp
        with Cons.IH [OF Cons.prems, where w = w'] True Inr w' show ?thesis
          by (simp split: sum.splits prod.splits)
      qed
    qed
  qed
qed

lemma write_orders_elsewhere:
  "\<forall>s\<in>set ss. p \<noteq> order_path argv2 s \<Longrightarrow>
     (case write_orders e net argv2 argv3 gs ss w of
        Inl (err, w') \<Rightarrow> files w' p = files w p
      | Inr w' \<Rightarrow> files w' p = files w p)"
proof (induction ss arbitrary: w)
  case Nil
  then show ?case by simp
next
  case (Cons s ss)
  from Cons.prems have ne: "p \<noteq> order_path argv2 s" and rest: "\<forall>s\<in>set ss. p \<noteq> order_path argv2 s"
    by simp_all
  show ?case
  proof (cases "open_output e argv2 (order_path argv2 s) w")
    case (Inl ew)
    with open_output_elsewhere [OF ne, where e = e and ?argv2.0 = argv2 and w = w] show ?thesis
      by (simp split: prod.splits)
  next
    case (Inr hw)
    obtain out w1 where hw: "hw = (out, w1)" by (cases hw)
    with Inr open_output_elsewhere [OF ne, where e = e and ?argv2.0 = argv2 and w = w]
    have f1: "files w1 p = files w p" and out: "out \<noteq> File p"
      by simp_all
    show ?thesis
    proof (cases "writerow out order_header w1")
      case (Inl ew)
      with writerow_elsewhere [OF out, where row = order_header and w = w1] f1 Inr hw show ?thesis
        by (simp split: prod.splits)
    next
      case w2: (Inr w2)
      with writerow_elsewhere [OF out, where row = order_header and w = w1] f1 have f2: "files w2 p = files w p"
        by simp
      show ?thesis
      proof (cases "order_loop net argv3 out s gs w2")
        case (Inl ew)
        with order_loop_elsewhere [OF out, where net = net and ?argv3.0 = argv3 and s = s and gs = gs and w = w2] f2 Inr hw w2 show ?thesis
          by (simp split: prod.splits)
      next
        case w3: (Inr w3)
        with order_loop_elsewhere [OF out, where net = net and ?argv3.0 = argv3 and s = s and gs = gs and w = w2] f2
        have f3: "files (close out w3) p = files w p"
          by (simp add: close_files)
        from Cons.IH [OF rest, where w = "close out w3"] f3 Inr hw w2 w3 show ?thesis
          by (simp split: sum.splits prod.splits)
      qed
    qed
  qed
qed

lemma bom_row_ok:
  "py_int argv3 = Some boards \<Longrightarrow> qty_per_unit net g \<noteq> 0 \<Longrightarrow>
     bom_row net argv3 g =
       Inr ([S (getGroupField net g ''Pretty Name''), I (qty_per_unit net g),
             I ((int (length g) * boards) div qty_per_unit net g
                + (if int (length g) mod qty_per_unit net g \<noteq> 0 then 1 else 0)),
             S (getGroupField net g ''Cost/Unit'')]
            @ (if getGroupField net g ''Order From'' \<noteq> '''' then
                 [S (getGroupField net g (getGroupField net g ''Order From'' @ '' Link'')),
                  S (getGroupField net g (getGroupField net g ''Order From'' @ '' P/N''))]
               else []))"
  by (simp add: bom_row_def units_ok Let_def)


lemma set_add_set: "set (set_add x xs) = insert x (set xs)"
  by (auto simp: set_add_def)

lemma set_add_distinct: "distinct xs \<Longrightarrow> distinct (set_add x xs)"
  by (simp add: set_add_def)

lemma bom_loop_File:
  assumes "\<forall>g\<in>set gs. bom_row net argv3 g = Inr (rowf g)"
    and "files w p = Some t"
    and "distinct sups"
  shows "\<exists>sups'. bom_loop net argv3 (File p) gs sups w =
           Inr (sups', w\<lparr>files := (files w)(p \<mapsto> t @ concat (map (\<lambda>g. csv_line (map py_str (rowf g))) gs))\<rparr>)
         \<and> set sups' = set sups \<union> ((\<lambda>g. getGroupField net g ''Order From'') ` set gs - {''''})
         \<and> distinct sups'"
  using assms
proof (induction gs arbitrary: sups w t)
  case Nil
  then have "(files w)(p \<mapsto> t) = files w"
    by (simp add: fun_upd_idem_iff)
  with Nil show ?case by simp
next
  case (Cons g gs)
  let ?line = "csv_line (map py_str (rowf g))"
  let ?w' = "w\<lparr>files := (files w)(p \<mapsto> t @ ?line)\<rparr>"
  let ?sups = "if getGroupField net g ''Order From'' \<noteq> '''' then set_add (getGroupField net g ''Order From'') sups else sups"
  from Cons.prems(1) have row: "bom_row net argv3 g = Inr (rowf g)"
    and rest: "\<forall>g\<in>set gs. bom_row net argv3 g = Inr (rowf g)"
    by simp_all
  from Cons.prems(2) have wr: "writerow (File p) (rowf g) w = Inr ?w'"
    by (simp add: writerow_File)
  have f': "files ?w' p = Some (t @ ?line)"
    by simp
  from Cons.prems(3) have d: "distinct ?sups"
    by (simp add: set_add_distinct)
  from Cons.IH [OF rest f' d] obtain sups' where
    l: "bom_loop net argv3 (File p) gs ?sups ?w' =
          Inr (sups', ?w'\<lparr>files := (files ?w')(p \<mapsto> (t @ ?line) @ concat (map (\<lambda>g. csv_line (map py_str (rowf g))) gs))\<rparr>)"
    and s: "set sups' = set ?sups \<union> ((\<lambda>g. getGroupField net g ''Order From'') ` set gs - {''''})"
    and d': "distinct sups'"
    by blast
  from row wr l have
    "bom_loop net argv3 (File p) (g # gs) sups w =
       Inr (sups', w\<lparr>files := (files w)(p \<mapsto> t @ concat (map (\<lambda>g. csv_line (map py_str (rowf g))) (g # gs)))\<rparr>)"
    by (simp add: Let_def)
  moreover from s have
    "set sups' = set sups \<union> ((\<lambda>g. getGroupField net g ''Order From'') ` set (g # gs) - {''''})"
    by (auto simp: set_add_set split: if_splits)
  ultimately show ?case using d' by blast
qed

lemma write_bom_good:
  assumes "can_open e (bom_path argv2)"
    and "\<forall>g\<in>set gs. bom_row net argv3 g = Inr (rowf g)"
  shows "\<exists>sups. write_bom e net argv2 argv3 gs w =
           Inr (sups, w\<lparr>files := (files w)(bom_path argv2 \<mapsto>
                   csv_line (map py_str bom_header)
                   @ concat (map (\<lambda>g. csv_line (map py_str (rowf g))) gs))\<rparr>)
         \<and> set sups = (\<lambda>g. getGroupField net g ''Order From'') ` set gs - {''''}
         \<and> distinct sups"
proof -
  let ?p = "bom_path argv2"
  let ?w1 = "w\<lparr>files := (files w)(?p \<mapsto> [])\<rparr>"
  let ?w2 = "w\<lparr>files := (files w)(?p \<mapsto> csv_line (map py_str bom_header))\<rparr>"
  from assms(1) have o: "open_output e argv2 ?p w = Inr (File ?p, ?w1)"
    by (simp add: open_output_def open_file_writeUTF8_def)
  have h: "writerow (File ?p) bom_header ?w1 = Inr ?w2"
    by (simp add: writerow_File)
  have f: "files ?w2 ?p = Some (csv_line (map py_str bom_header))"
    by simp
  from bom_loop_File [OF assms(2) f, of "[]"] obtain sups where
    l: "bom_loop net argv3 (File ?p) gs [] ?w2 =
          Inr (sups, ?w2\<lparr>files := (files ?w2)(?p \<mapsto> csv_line (map py_str bom_header)
                  @ concat (map (\<lambda>g. csv_line (map py_str (rowf g))) gs))\<rparr>)"
    and s: "set sups = (\<lambda>g. getGroupField net g ''Order From'') ` set gs - {''''}"
    and d: "distinct sups"
    by auto
  from o h l have
    "write_bom e net argv2 argv3 gs w =
       Inr (sups, w\<lparr>files := (files w)(?p \<mapsto> csv_line (map py_str bom_header)
               @ concat (map (\<lambda>g. csv_line (map py_str (rowf g))) gs))\<rparr>)"
    by (simp add: write_bom_def close_def)
  with s d show ?thesis by blast
qed




lemma read_escaped:
  "csv_read_from InField cur row rows (csv_escape f @ CHR 0x22 # rest)
     = csv_read_from AfterQuote (cur @ f) row rows rest"
  by (induction f arbitrary: cur) (simp_all add: csv_escape_def)

lemma read_field:
  "csv_read_from FieldStart cur row rows (csv_field f @ rest)
     = csv_read_from AfterQuote f row rows rest"
  using read_escaped [of "[]" row rows f rest] by (simp add: csv_field_def)

lemma read_fields:
  "csv_read_from FieldStart cur row rows (csv_join (map csv_field (f # fs)) @ CHR 0x0A # rest)
     = csv_read_from FieldStart [] [] (rows @ [row @ f # fs]) rest"
proof (induction fs arbitrary: f cur row)
  case Nil
  show ?case
    using read_field [of cur row rows f "CHR 0x0A # rest"] by simp
next
  case (Cons g fs)
  have "csv_read_from FieldStart cur row rows
          (csv_join (map csv_field (f # g # fs)) @ CHR 0x0A # rest)
        = csv_read_from FieldStart [] (row @ [f]) rows
          (csv_join (map csv_field (g # fs)) @ CHR 0x0A # rest)"
    using read_field [of cur row rows f "CHR 0x2C # csv_join (map csv_field (g # fs)) @ CHR 0x0A # rest"]
    by simp
  also have "\<dots> = csv_read_from FieldStart [] [] (rows @ [(row @ [f]) @ g # fs]) rest"
    by (rule Cons.IH)
  finally show ?case by simp
qed

lemma read_line:
  "csv_read_from FieldStart cur [] rows (csv_line fs @ rest)
     = csv_read_from FieldStart [] [] (rows @ [fs]) rest"
proof (cases fs)
  case Nil
  then show ?thesis by (simp add: csv_line_def)
next
  case (Cons f fs')
  with read_fields [of cur "[]" rows f fs' rest] show ?thesis
    by (simp add: csv_line_def)
qed

lemma read_lines:
  "csv_read_from FieldStart cur [] rows (concat (map csv_line rs)) = Some (rows @ rs)"
proof (induction rs arbitrary: cur rows)
  case Nil
  show ?case by simp
next
  case (Cons r rs)
  have "csv_read_from FieldStart cur [] rows (concat (map csv_line (r # rs)))
        = csv_read_from FieldStart [] [] (rows @ [r]) (concat (map csv_line rs))"
    using read_line [of cur rows r "concat (map csv_line rs)"] by simp
  also have "\<dots> = Some ((rows @ [r]) @ rs)"
    by (rule Cons.IH)
  finally show ?case by simp
qed

lemma myEqu_iff:
  "myEqu x y \<longleftrightarrow>
     getValue x = getValue y \<and> getPartName x = getPartName y
     \<and> getFootprint x = getFootprint y \<and> getDNP x = getDNP y"
  by (simp add: myEqu_def)

lemma groupComponents_mset: "mset (concat (groupComponents equ cs)) = mset cs"
proof (induction equ cs rule: groupComponents.induct)
  case (1 equ)
  show ?case by simp
next
  case (2 equ c cs)
  have "mset (filter (\<lambda>ci. equ ci c) cs) + mset (filter (\<lambda>ci. \<not> equ ci c) cs) = mset cs"
    by (induction cs) simp_all
  with "2.IH" show ?case by simp
qed

lemma groupComponents_members:
  "g \<in> set (groupComponents equ cs) \<Longrightarrow> x \<in> set g \<Longrightarrow> x \<in> set cs"
proof -
  assume "g \<in> set (groupComponents equ cs)" and "x \<in> set g"
  then have "x \<in> set (concat (groupComponents equ cs))"
    by auto
  then have "x \<in># mset (concat (groupComponents equ cs))"
    by simp
  then show ?thesis
    by (simp only: groupComponents_mset set_mset_mset)
qed

lemma groupComponents_separates:
  assumes refl: "\<And>x. equ x x"
    and sym: "\<And>x y. equ x y \<Longrightarrow> equ y x"
    and trans: "\<And>x y z. equ x y \<Longrightarrow> equ y z \<Longrightarrow> equ x z"
  shows "distinct (groupComponents equ cs)
    \<and> (\<forall>g\<in>set (groupComponents equ cs). \<forall>h\<in>set (groupComponents equ cs).
          \<forall>x\<in>set g. \<forall>y\<in>set h. (g = h) = equ x y)"
proof (induction cs rule: length_induct)
  case (1 cs)
  show ?case
  proof (cases cs)
    case Nil
    then show ?thesis by simp
  next
    case (Cons c cs')
    let ?g0 = "c # filter (\<lambda>ci. equ ci c) cs'"
    let ?others = "filter (\<lambda>ci. \<not> equ ci c) cs'"
    let ?rest = "groupComponents equ ?others"
    have gs: "groupComponents equ cs = ?g0 # ?rest"
      using Cons by simp
    have "length ?others < length cs"
      using Cons by (simp add: less_Suc_eq_le)
    with "1.IH" have d: "distinct ?rest"
      and sep: "\<forall>g\<in>set ?rest. \<forall>h\<in>set ?rest. \<forall>x\<in>set g. \<forall>y\<in>set h. (g = h) = equ x y"
      by blast+
    have first: "equ x c" if "x \<in> set ?g0" for x
      using that refl by auto
    have later: "\<not> equ y c" if "h \<in> set ?rest" "y \<in> set h" for h y
      using groupComponents_members [OF that] by simp
    have new: "?g0 \<notin> set ?rest"
    proof
      assume "?g0 \<in> set ?rest"
      from later [OF this, of c] refl show False by simp
    qed
    have same: "equ x y" if "x \<in> set ?g0" "y \<in> set ?g0" for x y
    proof -
      from first [OF that(2)] have "equ c y" by (rule sym)
      with first [OF that(1)] show ?thesis by (rule trans)
    qed
    have apart: "\<not> equ x y \<and> \<not> equ y x" if "x \<in> set ?g0" "h \<in> set ?rest" "y \<in> set h" for x y h
    proof -
      have xc: "equ x c" by (rule first [OF that(1)])
      have yc: "\<not> equ y c" by (rule later [OF that(2,3)])
      have "equ y c" if "equ x y"
        using trans [OF sym [OF that] xc] .
      moreover have "equ y c" if "equ y x"
        using trans [OF that xc] .
      ultimately show ?thesis using yc by blast
    qed
    have "(g = h) = equ x y"
      if "g \<in> set (?g0 # ?rest)" "h \<in> set (?g0 # ?rest)" "x \<in> set g" "y \<in> set h" for g h x y
    proof (cases "g = ?g0")
      case g: True
      from g that(3) have x: "x \<in> set ?g0" by simp
      show ?thesis
      proof (cases "h = ?g0")
        case True
        with that(4) have "y \<in> set ?g0" by simp
        with x have "equ x y" by (rule same)
        with g True show ?thesis by simp
      next
        case False
        with that(2) have h: "h \<in> set ?rest" by simp
        from apart [OF x h that(4)] have "\<not> equ x y" by simp
        moreover from g h new have "g \<noteq> h" by blast
        ultimately show ?thesis by simp
      qed
    next
      case g: False
      with that(1) have g': "g \<in> set ?rest" by simp
      show ?thesis
      proof (cases "h = ?g0")
        case True
        with that(4) have y: "y \<in> set ?g0" by simp
        from apart [OF y g' that(3)] have "\<not> equ x y" by simp
        moreover from True g' new have "g \<noteq> h" by blast
        ultimately show ?thesis by simp
      next
        case False
        with that(2) have h: "h \<in> set ?rest" by simp
        from sep g' h that(3,4) show ?thesis by blast
      qed
    qed
    with d new gs show ?thesis
      by simp
  qed
qed

lemma units_bad_count: "py_int argv3 = None \<Longrightarrow> units argv3 g per = Inl ValueError"
  by (simp add: units_def)

lemma bom_loop_bad_count:
  "py_int argv3 = None \<Longrightarrow> gs \<noteq> [] \<Longrightarrow> bom_loop net argv3 out gs sups w = Inl (ValueError, w)"
  by (cases gs) (simp_all add: bom_row_def units_bad_count)

lemma write_bom_bad_count:
  assumes "py_int argv3 = None" "gs \<noteq> []" "\<not> stdout_closed w"
  shows "\<exists>w'. write_bom e net argv2 argv3 gs w = Inl (ValueError, w')"
proof -
  from open_output_open [OF assms(3)] obtain out w1 where
    o: "open_output e argv2 (bom_path argv2) w = Inr (out, w1)" "\<not> stdout_closed w1"
    by blast
  from writerow_open [of out w1 bom_header] o(2) obtain w2 where
    h: "writerow out bom_header w1 = Inr w2"
    by auto
  from o(1) h bom_loop_bad_count [OF assms(1,2)] show ?thesis
    by (simp add: write_bom_def)
qed

lemma ceiling_by_floor:
  "0 < per \<Longrightarrow> \<lceil>real_of_int n / real_of_int per\<rceil> = n div per + (if n mod per \<noteq> 0 then 1 else 0)"
proof -
  assume "0 < per"
  then have "per \<noteq> 0" by simp
  have "\<lceil>real_of_int n / real_of_int per\<rceil> = - ((- n) div per)"
    by (simp add: ceiling_divide_eq_div)
  also have "\<dots> = n div per + (if n mod per \<noteq> 0 then 1 else 0)"
    using \<open>per \<noteq> 0\<close> by (simp add: zdiv_zminus1_eq_if)
  finally show ?thesis .
qed

lemma units_one_board:
  assumes "py_int argv3 = Some 1" "0 < per"
  shows "units argv3 g per = Inr \<lceil>real (length g) * 1 / real_of_int per\<rceil>"
proof -
  from ceiling_by_floor [OF assms(2), of "int (length g)"] assms show ?thesis
    by (simp add: units_def)
qed

lemma units_overshoot:
  assumes "py_int argv3 = Some boards" "0 < per"
  shows "\<exists>u. units argv3 g per = Inr u
    \<and> \<lceil>real_of_int (int (length g) * boards) / real_of_int per\<rceil> \<le> u
    \<and> u \<le> \<lceil>real_of_int (int (length g) * boards) / real_of_int per\<rceil> + 1"
proof -
  have m: "(int (length g) * boards) mod per \<noteq> 0 \<Longrightarrow> int (length g) mod per \<noteq> 0"
    by (metis mod_mult_left_eq mult_zero_left mod_0)
  from assms ceiling_by_floor [OF assms(2), of "int (length g) * boards"] m show ?thesis
    by (auto simp: units_def)
qed

lemma bom_file_content:
  assumes "length argv = 4"
    and "read_netlist e (argv ! 1) = Inr net"
    and "py_int (argv ! 3) = Some boards"
    and "\<forall>g\<in>set (groupComponents myEqu (getInterestingComponents net)). qty_per_unit net g \<noteq> 0"
    and "can_open e (bom_path (argv ! 2))"
  shows "files (snd (main e argv w)) (bom_path (argv ! 2)) =
     Some (csv_line [''Component'', ''Qty per Unit'', ''Units'', ''Cost/Unit'', ''Link'', ''Part Number'']
           @ concat (map (\<lambda>g. csv_line
                ([getGroupField net g ''Pretty Name'',
                  str_int (qty_per_unit net g),
                  str_int ((int (length g) * boards) div qty_per_unit net g
                           + (if int (length g) mod qty_per_unit net g \<noteq> 0 then 1 else 0)),
                  getGroupField net g ''Cost/Unit'']
                 @ (if getGroupField net g ''Order From'' \<noteq> '''' then
                      [getGroupField net g (getGroupField net g ''Order From'' @ '' Link''),
                       getGroupField net g (getGroupField net g ''Order From'' @ '' P/N'')]
                    else [])))
              (groupComponents myEqu (getInterestingComponents net))))"
proof -
  let ?gs = "groupComponents myEqu (getInterestingComponents net)"
  let ?rowf = "\<lambda>g. [S (getGroupField net g ''Pretty Name''), I (qty_per_unit net g),
             I ((int (length g) * boards) div qty_per_unit net g
                + (if int (length g) mod qty_per_unit net g \<noteq> 0 then 1 else 0)),
             S (getGroupField net g ''Cost/Unit'')]
            @ (if getGroupField net g ''Order From'' \<noteq> '''' then
                 [S (getGroupField net g (getGroupField net g ''Order From'' @ '' Link'')),
                  S (getGroupField net g (getGroupField net g ''Order From'' @ '' P/N''))]
               else [])"
  define content where
    "content = csv_line (map py_str bom_header) @ concat (map (\<lambda>g. csv_line (map py_str (?rowf g))) ?gs)"
  define w1 where "w1 = w\<lparr>files := (files w)(bom_path (argv ! 2) \<mapsto> content)\<rparr>"
  from assms(3,4) have rows: "\<forall>g\<in>set ?gs. bom_row net (argv ! 3) g = Inr (?rowf g)"
    by (simp add: bom_row_ok)
  from write_bom_good [OF assms(5) rows, where w = w] obtain sups where
    b: "write_bom e net (argv ! 2) (argv ! 3) ?gs w = Inr (sups, w1)"
    unfolding content_def w1_def by blast
  have f1: "files w1 (bom_path (argv ! 2)) = Some content"
    by (simp add: w1_def)
  have "\<forall>s\<in>set (set_order e sups). bom_path (argv ! 2) \<noteq> order_path (argv ! 2) s"
    by (simp add: bom_path_not_order)
  from write_orders_elsewhere [OF this, where e = e and net = net and ?argv3.0 = "argv ! 3"
      and gs = ?gs and w = w1] f1
  have "files (snd (case write_orders e net (argv ! 2) (argv ! 3) ?gs (set_order e sups) w1 of
                      Inl (err, w') \<Rightarrow> (Raised err, w')
                    | Inr w2 \<Rightarrow> (Finished, w2))) (bom_path (argv ! 2)) = Some content"
    by (simp split: sum.splits prod.splits)
  moreover from assms(1,2) b have
    "main e argv w = (case write_orders e net (argv ! 2) (argv ! 3) ?gs (set_order e sups) w1 of
                      Inl (err, w') \<Rightarrow> (Raised err, w')
                    | Inr w2 \<Rightarrow> (Finished, w2))"
    by (simp add: main_def)
  ultimately have "files (snd (main e argv w)) (bom_path (argv ! 2)) = Some content"
    by simp
  then show ?thesis
    by (simp add: content_def bom_header_def if_distrib [where f = "map py_str"] cong: if_cong)
qed


lemma csv_line_spelled:
  "row \<noteq> [] \<Longrightarrow>
     csv_line row =
       concat (map (\<lambda>f. CHR 0x22 # concat (map (\<lambda>c. if c = CHR 0x22 then [c, c] else [c]) f)
                           @ [CHR 0x22, CHR 0x2C]) (butlast row))
       @ CHR 0x22 # concat (map (\<lambda>c. if c = CHR 0x22 then [c, c] else [c]) (last row))
       @ [CHR 0x22, CHR 0x0A]"
proof -
  have "row \<noteq> [] \<Longrightarrow>
     csv_join (map csv_field row) =
       concat (map (\<lambda>f. csv_field f @ [CHR 0x2C]) (butlast row)) @ csv_field (last row)"
  proof (induction row)
    case Nil
    then show ?case by simp
  next
    case (Cons f fs)
    then show ?case by (cases fs) simp_all
  qed
  moreover assume "row \<noteq> []"
  ultimately show ?thesis
    by (simp add: csv_line_def csv_field_def csv_escape_def)
qed

lemma written_text:
  assumes "[] \<notin> set rows"
  shows "concat (map csv_line rows) =
      concat (map (\<lambda>row.
        concat (map (\<lambda>f. CHR 0x22 # concat (map (\<lambda>c. if c = CHR 0x22 then [c, c] else [c]) f)
                            @ [CHR 0x22, CHR 0x2C]) (butlast row))
        @ CHR 0x22 # concat (map (\<lambda>c. if c = CHR 0x22 then [c, c] else [c]) (last row))
        @ [CHR 0x22, CHR 0x0A]) rows)"
    and "csv_read (concat (map csv_line rows)) = Some rows"
proof -
  from assms have "map csv_line rows =
      map (\<lambda>row.
        concat (map (\<lambda>f. CHR 0x22 # concat (map (\<lambda>c. if c = CHR 0x22 then [c, c] else [c]) f)
                            @ [CHR 0x22, CHR 0x2C]) (butlast row))
        @ CHR 0x22 # concat (map (\<lambda>c. if c = CHR 0x22 then [c, c] else [c]) (last row))
        @ [CHR 0x22, CHR 0x0A]) rows"
    by (intro map_cong refl csv_line_spelled) auto
  then show "concat (map csv_line rows) =
      concat (map (\<lambda>row.
        concat (map (\<lambda>f. CHR 0x22 # concat (map (\<lambda>c. if c = CHR 0x22 then [c, c] else [c]) f)
                            @ [CHR 0x22, CHR 0x2C]) (butlast row))
        @ CHR 0x22 # concat (map (\<lambda>c. if c = CHR 0x22 then [c, c] else [c]) (last row))
        @ [CHR 0x22, CHR 0x0A]) rows)"
    by (rule arg_cong)
  show "csv_read (concat (map csv_line rows)) = Some rows"
    using read_lines [of "[]" "[]" rows] by (simp add: csv_read_def)
qed

subsection \<open>The claims\<close>

text \<open>
  C1. The Units entry is meant to be the ceiling of group size times boards over the
  quantity per unit. The script adds the one for a remainder by looking at the group
  size alone: two resistors that come four to a unit, for two boards, are entered as 2
  units, while the ceiling of 4/4 is 1.
\<close>

theorem units_not_ceiling:
  "units ''2'' [R1, R2] (qty_per_unit (example_net ''4'') [R1, R2]) = Inr 2
   \<and> \<lceil>(real (length [R1, R2]) * 2) / 4\<rceil> = 1"
proof
  show "units ''2'' [R1, R2] (qty_per_unit (example_net ''4'') [R1, R2]) = Inr 2"
    by code_simp
  show "\<lceil>(real (length [R1, R2]) * 2) / 4\<rceil> = 1"
    by simp
qed

text \<open>
  C2. The groups hold every component exactly once (as many times as it is in the
  list), no group occurs twice, and two components lie in the same group exactly when
  they agree on value, part name, footprint and DNP.
\<close>

theorem grouping_by_four_fields:
  "mset (concat (groupComponents myEqu cs)) = mset cs
   \<and> distinct (groupComponents myEqu cs)
   \<and> (\<forall>g\<in>set (groupComponents myEqu cs). \<forall>h\<in>set (groupComponents myEqu cs).
         \<forall>x\<in>set g. \<forall>y\<in>set h.
           (g = h) = (getValue x = getValue y \<and> getPartName x = getPartName y
                      \<and> getFootprint x = getFootprint y \<and> getDNP x = getDNP y))"
proof -
  have "distinct (groupComponents myEqu cs)
    \<and> (\<forall>g\<in>set (groupComponents myEqu cs). \<forall>h\<in>set (groupComponents myEqu cs).
          \<forall>x\<in>set g. \<forall>y\<in>set h. (g = h) = myEqu x y)"
    by (rule groupComponents_separates) (auto simp: myEqu_iff)
  then show ?thesis
    by (simp add: groupComponents_mset myEqu_iff)
qed

theorem grouping_by_four_fields_witness:
  "[R1, R2] \<in> set (groupComponents myEqu [R1, C1, R2])
   \<and> [C1] \<in> set (groupComponents myEqu [R1, C1, R2])
   \<and> R1 \<in> set [R1, R2] \<and> R2 \<in> set [R1, R2] \<and> C1 \<in> set [C1]
   \<and> mset (concat (groupComponents myEqu [R1, C1, R2])) = mset [R1, C1, R2]
   \<and> (getValue R1 = getValue R2 \<and> getPartName R1 = getPartName R2
        \<and> getFootprint R1 = getFootprint R2 \<and> getDNP R1 = getDNP R2)
   \<and> \<not> (getValue R1 = getValue C1 \<and> getPartName R1 = getPartName C1
          \<and> getFootprint R1 = getFootprint C1 \<and> getDNP R1 = getDNP C1)"
proof -
  have g: "[R1, R2] \<in> set (groupComponents myEqu [R1, C1, R2])"
    by code_simp
  have h: "[C1] \<in> set (groupComponents myEqu [R1, C1, R2])"
    by code_simp
  have x: "R1 \<in> set [R1, R2]" and x': "R2 \<in> set [R1, R2]" and y: "C1 \<in> set [C1]"
    by simp_all
  note t = grouping_by_four_fields [of "[R1, C1, R2]"]
  from t have m: "mset (concat (groupComponents myEqu [R1, C1, R2])) = mset [R1, C1, R2]"
    by (rule conjunct1)
  from t have sep: "\<forall>g\<in>set (groupComponents myEqu [R1, C1, R2]).
      \<forall>h\<in>set (groupComponents myEqu [R1, C1, R2]). \<forall>x\<in>set g. \<forall>y\<in>set h.
        (g = h) = (getValue x = getValue y \<and> getPartName x = getPartName y
                   \<and> getFootprint x = getFootprint y \<and> getDNP x = getDNP y)"
    by (rule conjunct2 [THEN conjunct2])
  from sep [rule_format, OF g g x x'] have same:
    "getValue R1 = getValue R2 \<and> getPartName R1 = getPartName R2
        \<and> getFootprint R1 = getFootprint R2 \<and> getDNP R1 = getDNP R2"
    by simp
  from sep [rule_format, OF g h x y] have apart:
    "\<not> (getValue R1 = getValue C1 \<and> getPartName R1 = getPartName C1
          \<and> getFootprint R1 = getFootprint C1 \<and> getDNP R1 = getDNP C1)"
    by simp
  from g h x x' y m same apart show ?thesis by blast
qed

text \<open>
  C3. On a run with four arguments, a netlist, an integer board count and no group whose
  quantity per unit is zero (board count and quantity texts being ASCII), the aggregate
  file, when it can be opened, holds the header row and then one row per group, in the
  order of the groups: pretty name, quantity per unit, units, cost per unit, and, only
  when "Order From" names a supplier, that supplier's link and part number. The text of
  the file is spelled out character by character, every field between double quotes, and
  reading it back gives exactly these rows.
\<close>

theorem aggregate_bom_rows:
  fixes net :: netlist and argv :: "string list" and boards :: int
  defines "gs \<equiv> groupComponents myEqu (getInterestingComponents net)"
    and "per \<equiv> \<lambda>g. case py_int (getGroupField net g ''Qty/Unit'') of None \<Rightarrow> 1 | Some n \<Rightarrow> n"
    and "path \<equiv> take (length (argv ! 2) - 4) (argv ! 2) @ ''_BOM.csv''"
    and "text_line \<equiv> \<lambda>row.
        concat (map (\<lambda>f. CHR 0x22 # concat (map (\<lambda>c. if c = CHR 0x22 then [c, c] else [c]) f)
                            @ [CHR 0x22, CHR 0x2C]) (butlast row))
        @ CHR 0x22 # concat (map (\<lambda>c. if c = CHR 0x22 then [c, c] else [c]) (last row))
        @ [CHR 0x22, CHR 0x0A]"
  defines "rows \<equiv>
      [''Component'', ''Qty per Unit'', ''Units'', ''Cost/Unit'', ''Link'', ''Part Number'']
      # map (\<lambda>g. [getGroupField net g ''Pretty Name'',
                   str_int (per g),
                   str_int ((int (length g) * boards) div per g
                            + (if int (length g) mod per g \<noteq> 0 then 1 else 0)),
                   getGroupField net g ''Cost/Unit'']
                  @ (if getGroupField net g ''Order From'' \<noteq> '''' then
                       [getGroupField net g (getGroupField net g ''Order From'' @ '' Link''),
                        getGroupField net g (getGroupField net g ''Order From'' @ '' P/N'')]
                     else [])) gs"
  assumes len: "length argv = 4"
    and net: "read_netlist e (argv ! 1) = Inr net"
    and count: "is_ascii (argv ! 3)" "py_int (argv ! 3) = Some boards"
    and qty: "\<forall>g\<in>set gs. is_ascii (getGroupField net g ''Qty/Unit'') \<and> per g \<noteq> 0"
    and can: "can_open e path"
  shows "files (snd (main e argv w)) path = Some (concat (map text_line rows))
     \<and> csv_read (concat (map text_line rows)) = Some rows"
proof -
  let ?gs = "groupComponents myEqu (getInterestingComponents net)"
  have per: "per g = qty_per_unit net g" for g
    by (simp add: per_def qty_per_unit_def)
  have bp: "bom_path (argv ! 2) = path"
    by (simp add: bom_path_def stem_def path_def)
  from qty have q: "\<forall>g\<in>set ?gs. qty_per_unit net g \<noteq> 0"
    by (simp add: gs_def per)
  from can have can': "can_open e (bom_path (argv ! 2))"
    by (simp add: bp)
  have "files (snd (main e argv w)) path = Some (concat (map csv_line rows))"
    using bom_file_content [OF len net count(2) q can', where w = w]
    by (simp add: bp rows_def gs_def per o_def)
  moreover have "[] \<notin> set rows"
    by (auto simp: rows_def)
  ultimately show ?thesis
    using written_text [of rows] by (simp add: text_line_def)
qed

theorem aggregate_bom_rows_witness:
  fixes text_line :: "string list \<Rightarrow> string"
  defines "text_line \<equiv> \<lambda>row.
        concat (map (\<lambda>f. CHR 0x22 # concat (map (\<lambda>c. if c = CHR 0x22 then [c, c] else [c]) f)
                            @ [CHR 0x22, CHR 0x2C]) (butlast row))
        @ CHR 0x22 # concat (map (\<lambda>c. if c = CHR 0x22 then [c, c] else [c]) (last row))
        @ [CHR 0x22, CHR 0x0A]"
  shows "length (example_argv ''2'') = 4
   \<and> read_netlist (example_env True ''4'') (example_argv ''2'' ! 1) = Inr (example_net ''4'')
   \<and> is_ascii (example_argv ''2'' ! 3)
   \<and> py_int (example_argv ''2'' ! 3) = Some 2
   \<and> list_all (\<lambda>g. is_ascii (getGroupField (example_net ''4'') g ''Qty/Unit'')
                    \<and> (case py_int (getGroupField (example_net ''4'') g ''Qty/Unit'') of
                          None \<Rightarrow> 1 | Some n \<Rightarrow> n) \<noteq> (0 :: int))
        (groupComponents myEqu (getInterestingComponents (example_net ''4'')))
   \<and> can_open (example_env True ''4'') ''board_BOM.csv''
   \<and> files (snd (main (example_env True ''4'') (example_argv ''2'') example_world)) ''board_BOM.csv''
       = Some (concat (map text_line
           [[''Component'', ''Qty per Unit'', ''Units'', ''Cost/Unit'', ''Link'', ''Part Number''],
            [''Resistor, 10k'', ''4'', ''2'', ''0.10'', ''https://www.digikey.com/10k'',
             ''311-10.0KHRCT-ND''],
            [''Capacitor 100n'', ''1'', ''2'', ''0.05'']]))
   \<and> csv_read (the (files (snd (main (example_env True ''4'') (example_argv ''2'') example_world))
                      ''board_BOM.csv''))
       = Some [[''Component'', ''Qty per Unit'', ''Units'', ''Cost/Unit'', ''Link'', ''Part Number''],
               [''Resistor, 10k'', ''4'', ''2'', ''0.10'', ''https://www.digikey.com/10k'',
                ''311-10.0KHRCT-ND''],
               [''Capacitor 100n'', ''1'', ''2'', ''0.05'']]"
proof -
  have h1: "length (example_argv ''2'') = 4"
    by (simp add: example_argv_def)
  have h2: "read_netlist (example_env True ''4'') (example_argv ''2'' ! 1) = Inr (example_net ''4'')"
    by (simp add: example_env_def)
  have h3: "is_ascii (example_argv ''2'' ! 3)"
    by code_simp
  have h4: "py_int (example_argv ''2'' ! 3) = Some 2"
    by code_simp
  have h5': "list_all (\<lambda>g. is_ascii (getGroupField (example_net ''4'') g ''Qty/Unit'')
                    \<and> (case py_int (getGroupField (example_net ''4'') g ''Qty/Unit'') of
                          None \<Rightarrow> 1 | Some n \<Rightarrow> n) \<noteq> (0 :: int))
        (groupComponents myEqu (getInterestingComponents (example_net ''4'')))"
    by code_simp
  then have h5: "\<forall>g\<in>set (groupComponents myEqu (getInterestingComponents (example_net ''4''))).
      is_ascii (getGroupField (example_net ''4'') g ''Qty/Unit'')
      \<and> (case py_int (getGroupField (example_net ''4'') g ''Qty/Unit'') of
            None \<Rightarrow> 1 | Some n \<Rightarrow> n) \<noteq> (0 :: int)"
    by (simp add: list_all_iff)
  have p: "take (length (example_argv ''2'' ! 2) - 4) (example_argv ''2'' ! 2) @ ''_BOM.csv''
             = ''board_BOM.csv''"
    by (simp add: example_argv_def)
  have h6: "can_open (example_env True ''4'') ''board_BOM.csv''"
    by (simp add: example_env_def)
  have h6': "can_open (example_env True ''4'')
               (take (length (example_argv ''2'' ! 2) - 4) (example_argv ''2'' ! 2) @ ''_BOM.csv'')"
    by (simp add: example_env_def)
  note t = aggregate_bom_rows [OF h1 h2 h3 h4 h5 h6', where w = example_world, unfolded p]
  have f: "files (snd (main (example_env True ''4'') (example_argv ''2'') example_world)) ''board_BOM.csv''
       = Some (concat (map text_line
           [[''Component'', ''Qty per Unit'', ''Units'', ''Cost/Unit'', ''Link'', ''Part Number''],
            [''Resistor, 10k'', ''4'', ''2'', ''0.10'', ''https://www.digikey.com/10k'',
             ''311-10.0KHRCT-ND''],
            [''Capacitor 100n'', ''1'', ''2'', ''0.05'']]))"
    unfolding text_line_def by (rule trans [OF t [THEN conjunct1]]) code_simp
  have r: "csv_read (the (files (snd (main (example_env True ''4'') (example_argv ''2'') example_world))
                      ''board_BOM.csv''))
       = Some [[''Component'', ''Qty per Unit'', ''Units'', ''Cost/Unit'', ''Link'', ''Part Number''],
               [''Resistor, 10k'', ''4'', ''2'', ''0.10'', ''https://www.digikey.com/10k'',
                ''311-10.0KHRCT-ND''],
               [''Capacitor 100n'', ''1'', ''2'', ''0.05'']]"
    by code_simp
  from h1 h2 h3 h4 h5' h6 f r show ?thesis by blast
qed



text \<open>
  C5. When the "Qty/Unit" text of some group is an integer that is zero, the quantity
  per unit is 0 (the default of 1 is for text that is no integer) and the run, given
  four arguments (the board count ASCII text) and a netlist, ends with an uncaught
  error: ZeroDivisionError from the division, unless the board count is no integer,
  which raises ValueError before any division is tried.
\<close>

theorem zero_qty_per_unit_fails:
  assumes "length argv = 4"
    and "read_netlist e (argv ! 1) = Inr net"
    and "\<not> stdout_closed w"
    and "g \<in> set (groupComponents myEqu (getInterestingComponents net))"
    and "py_int (getGroupField net g ''Qty/Unit'') = Some 0"
    and "is_ascii (argv ! 3)"
  shows "qty_per_unit net g = 0
    \<and> fst (main e argv w) =
        Raised (if py_int (argv ! 3) = None then ValueError else ZeroDivisionError)"
proof -
  let ?gs = "groupComponents myEqu (getInterestingComponents net)"
  from assms(5) have z: "qty_per_unit net g = 0"
    by (simp add: qty_per_unit_def)
  show ?thesis
  proof (cases "py_int (argv ! 3)")
    case None
    from assms(4) have "?gs \<noteq> []" by auto
    from write_bom_bad_count [OF None this assms(3)] obtain w' where
      "write_bom e net (argv ! 2) (argv ! 3) ?gs w = Inl (ValueError, w')"
      by blast
    with assms(1,2) z None show ?thesis
      by (simp add: main_def)
  next
    case (Some boards)
    from assms(4) z have "\<exists>g\<in>set ?gs. qty_per_unit net g = 0"
      by blast
    from write_bom_zero [OF Some this assms(3)] obtain w' where
      "write_bom e net (argv ! 2) (argv ! 3) ?gs w = Inl (ZeroDivisionError, w')"
      by blast
    with assms(1,2) z Some show ?thesis
      by (simp add: main_def)
  qed
qed

theorem zero_qty_per_unit_fails_witness:
  "length (example_argv ''1'') = 4
   \<and> read_netlist (example_env True ''0'') (example_argv ''1'' ! 1) = Inr (example_net ''0'')
   \<and> is_ascii (example_argv ''1'' ! 3)
   \<and> py_int (example_argv ''1'' ! 3) = Some 1
   \<and> \<not> stdout_closed example_world
   \<and> [R1, R2] \<in> set (groupComponents myEqu (getInterestingComponents (example_net ''0'')))
   \<and> getGroupField (example_net ''0'') [R1, R2] ''Qty/Unit'' = ''0''
   \<and> py_int (getGroupField (example_net ''0'') [R1, R2] ''Qty/Unit'') = Some 0
   \<and> qty_per_unit (example_net ''0'') [R1, R2] = 0
   \<and> fst (main (example_env True ''0'') (example_argv ''1'') example_world)
       = Raised ZeroDivisionError
   \<and> fst (main (example_env True ''0'') (example_argv ''one'') example_world)
       = Raised ValueError"
proof -
  have h1: "length (example_argv x) = 4" for x
    by (simp add: example_argv_def)
  have h2: "read_netlist (example_env True ''0'') (example_argv x ! 1) = Inr (example_net ''0'')" for x
    by (simp add: example_env_def)
  have h3: "py_int (example_argv ''1'' ! 3) = Some 1"
    by code_simp
  have h3': "py_int (example_argv ''one'' ! 3) = None"
    by code_simp
  have h4: "\<not> stdout_closed example_world"
    by (simp add: example_world_def)
  have h5: "[R1, R2] \<in> set (groupComponents myEqu (getInterestingComponents (example_net ''0'')))"
    by code_simp
  have h0: "getGroupField (example_net ''0'') [R1, R2] ''Qty/Unit'' = ''0''"
    by code_simp
  have h6: "py_int (getGroupField (example_net ''0'') [R1, R2] ''Qty/Unit'') = Some 0"
    by code_simp
  have h7: "is_ascii (example_argv ''1'' ! 3)"
    by code_simp
  have h7': "is_ascii (example_argv ''one'' ! 3)"
    by code_simp
  from zero_qty_per_unit_fails [OF h1 h2 h4 h5 h6 h7] h3
  have a: "qty_per_unit (example_net ''0'') [R1, R2] = 0"
    and b: "fst (main (example_env True ''0'') (example_argv ''1'') example_world)
           = Raised ZeroDivisionError"
    by simp_all
  from zero_qty_per_unit_fails [OF h1 h2 h4 h5 h6 h7'] h3'
  have c: "fst (main (example_env True ''0'') (example_argv ''one'') example_world)
           = Raised ValueError"
    by simp
  from h1 [of "''1''"] h2 [of "''1''"] h3 h4 h5 h0 h6 h7 a b c show ?thesis by blast
qed

text \<open>
  C6. When the "Qty/Unit" text of a group is empty (the field is missing) or is ASCII
  text that is not an integer, the quantity per unit is 1, and with a board count that
  is an integer the rows of the group are built without an error, the Units entry being
  the group size times the board count.
\<close>

theorem qty_per_unit_default:
  assumes "getGroupField net g ''Qty/Unit'' = ''''
      \<or> py_int (getGroupField net g ''Qty/Unit'') = None"
    and "py_int argv3 = Some boards"
    and "is_ascii (getGroupField net g ''Qty/Unit'')"
  shows "qty_per_unit net g = 1
    \<and> units argv3 g (qty_per_unit net g) = Inr (int (length g) * boards)
    \<and> bom_row net argv3 g =
        Inr ([S (getGroupField net g ''Pretty Name''), I 1, I (int (length g) * boards),
              S (getGroupField net g ''Cost/Unit'')]
             @ (if getGroupField net g ''Order From'' \<noteq> '''' then
                  [S (getGroupField net g (getGroupField net g ''Order From'' @ '' Link'')),
                   S (getGroupField net g (getGroupField net g ''Order From'' @ '' P/N''))]
                else []))
    \<and> order_row net argv3 supplier g =
        Inr [S (getGroupField net g ''Pretty Name''), I (int (length g) * boards),
             S (getGroupField net g (supplier @ '' P/N'')),
             S (getGroupField net g (supplier @ '' Link''))]"
proof -
  have empty: "py_int '''' = None"
    by (simp add: py_int_def py_strip_def)
  from assms(1) empty have none: "py_int (getGroupField net g ''Qty/Unit'') = None"
    by auto
  then have per: "qty_per_unit net g = 1"
    by (simp add: qty_per_unit_def)
  have u: "units argv3 g 1 = Inr (int (length g) * boards)"
    using assms(2) by (simp add: units_def)
  show ?thesis
    using per u by (simp add: bom_row_def order_row_def Let_def)
qed

theorem qty_per_unit_default_witness:
  "getGroupField (example_net ''four'') [R1, R2] ''Qty/Unit'' = ''four''
   \<and> py_int (getGroupField (example_net ''four'') [R1, R2] ''Qty/Unit'') = None
   \<and> is_ascii (getGroupField (example_net ''four'') [R1, R2] ''Qty/Unit'')
   \<and> py_int ''3'' = Some 3
   \<and> qty_per_unit (example_net ''four'') [R1, R2] = 1
   \<and> units ''3'' [R1, R2] (qty_per_unit (example_net ''four'') [R1, R2]) = Inr 6
   \<and> bom_row (example_net ''four'') ''3'' [R1, R2] =
        Inr [S ''Resistor, 10k'', I 1, I 6, S ''0.10'', S ''https://www.digikey.com/10k'',
             S ''311-10.0KHRCT-ND'']
   \<and> order_row (example_net ''four'') ''3'' ''Digikey'' [R1, R2] =
        Inr [S ''Resistor, 10k'', I 6, S ''311-10.0KHRCT-ND'', S ''https://www.digikey.com/10k'']"
proof -
  have h0: "getGroupField (example_net ''four'') [R1, R2] ''Qty/Unit'' = ''four''"
    by code_simp
  have h1: "py_int (getGroupField (example_net ''four'') [R1, R2] ''Qty/Unit'') = None"
    by code_simp
  have h2: "py_int ''3'' = Some 3"
    by code_simp
  have h3: "is_ascii (getGroupField (example_net ''four'') [R1, R2] ''Qty/Unit'')"
    by code_simp
  note t = qty_per_unit_default [OF disjI2 [OF h1] h2 h3, of "''Digikey''"]
  from t have per: "qty_per_unit (example_net ''four'') [R1, R2] = 1"
    and u: "units ''3'' [R1, R2] (qty_per_unit (example_net ''four'') [R1, R2])
              = Inr (int (length [R1, R2]) * 3)"
    by blast+
  from u have u': "units ''3'' [R1, R2] (qty_per_unit (example_net ''four'') [R1, R2]) = Inr 6"
    by simp
  have row: "bom_row (example_net ''four'') ''3'' [R1, R2] =
        Inr [S ''Resistor, 10k'', I 1, I 6, S ''0.10'', S ''https://www.digikey.com/10k'',
             S ''311-10.0KHRCT-ND'']"
    by (rule trans [OF t [THEN conjunct2, THEN conjunct2, THEN conjunct1]]) code_simp
  have orow: "order_row (example_net ''four'') ''3'' ''Digikey'' [R1, R2] =
        Inr [S ''Resistor, 10k'', I 6, S ''311-10.0KHRCT-ND'', S ''https://www.digikey.com/10k'']"
    by (rule trans [OF t [THEN conjunct2, THEN conjunct2, THEN conjunct2]]) code_simp
  from h0 h1 h2 h3 per u' row orow show ?thesis by blast
qed

text \<open>
  C7. An output file that cannot be opened is replaced by standard output, but the
  script closes whatever it wrote to, standard output included. With an output directory
  that cannot be written to and one supplier in use, the aggregate rows go to standard
  output, standard output is closed, and the message for the order file that cannot be
  opened either raises ValueError: the run does not finish and the order rows are
  written nowhere. When only the aggregate file cannot be opened the run does finish.
\<close>

theorem second_fallback_raises:
  "fst (main (example_env False ''4'') (example_argv ''2'') example_world) = Raised ValueError
   \<and> stdout (snd (main (example_env False ''4'') (example_argv ''2'') example_world))
       = ''bom_bfr_format.py : Can'' @ [CHR 0x27] @ ''t open output file for writing: board.csv <stderr>''
           @ [CHR 0x0A]
         @ csv_line [''Component'', ''Qty per Unit'', ''Units'', ''Cost/Unit'', ''Link'', ''Part Number'']
         @ csv_line [''Resistor, 10k'', ''4'', ''2'', ''0.10'', ''https://www.digikey.com/10k'',
                     ''311-10.0KHRCT-ND'']
         @ csv_line [''Capacitor 100n'', ''1'', ''2'', ''0.05'']
   \<and> stdout_closed (snd (main (example_env False ''4'') (example_argv ''2'') example_world))
   \<and> fst (main ((example_env True ''4'')\<lparr>can_open := (\<lambda>path. path \<noteq> ''board_BOM.csv'')\<rparr>)
             (example_argv ''2'') example_world) = Finished"
proof (intro conjI)
  show "fst (main (example_env False ''4'') (example_argv ''2'') example_world) = Raised ValueError"
    by code_simp
  show "stdout (snd (main (example_env False ''4'') (example_argv ''2'') example_world))
       = ''bom_bfr_format.py : Can'' @ [CHR 0x27] @ ''t open output file for writing: board.csv <stderr>''
           @ [CHR 0x0A]
         @ csv_line [''Component'', ''Qty per Unit'', ''Units'', ''Cost/Unit'', ''Link'', ''Part Number'']
         @ csv_line [''Resistor, 10k'', ''4'', ''2'', ''0.10'', ''https://www.digikey.com/10k'',
                     ''311-10.0KHRCT-ND'']
         @ csv_line [''Capacitor 100n'', ''1'', ''2'', ''0.05'']"
    by code_simp
  show "stdout_closed (snd (main (example_env False ''4'') (example_argv ''2'') example_world))"
    by code_simp
  show "fst (main ((example_env True ''4'')\<lparr>can_open := (\<lambda>path. path \<noteq> ''board_BOM.csv'')\<rparr>)
             (example_argv ''2'') example_world) = Finished"
    by code_simp
qed

text \<open>
  C8. A command line that does not have exactly four entries (the program name and
  three arguments) makes the run print the usage line on standard error, the word
  Usage, the script's path and the three argument names, and exit with status 1; no
  file is written and nothing goes to standard output.
\<close>

theorem wrong_argument_count:
  "length argv \<noteq> 4 \<Longrightarrow>
     fst (main e argv w) = Exited 1
     \<and> stderr (snd (main e argv w)) =
           stderr w @ ''Usage  '' @ script_file e @ '' <generic_netlist.xml> <output.csv> <QTY>''
             @ [CHR 0x0A]
     \<and> files (snd (main e argv w)) = files w
     \<and> stdout (snd (main e argv w)) = stdout w
     \<and> stdout_closed (snd (main e argv w)) = stdout_closed w"
  by (simp add: main_def usage_def)

theorem wrong_argument_count_witness:
  "length [''bom_bfr_format.py'', ''board.xml''] \<noteq> 4
   \<and> fst (main (example_env True ''4'') [''bom_bfr_format.py'', ''board.xml''] example_world)
       = Exited 1
   \<and> stderr (snd (main (example_env True ''4'') [''bom_bfr_format.py'', ''board.xml'']
                      example_world))
       = ''Usage  bom_bfr_format.py <generic_netlist.xml> <output.csv> <QTY>'' @ [CHR 0x0A]
   \<and> files (snd (main (example_env True ''4'') [''bom_bfr_format.py'', ''board.xml'']
                     example_world)) ''board_BOM.csv'' = None"
proof -
  have h: "length [''bom_bfr_format.py'', ''board.xml''] \<noteq> 4" by simp
  note t = wrong_argument_count [OF h, of "example_env True ''4''" example_world]
  from t have 1: "fst (main (example_env True ''4'') [''bom_bfr_format.py'', ''board.xml'']
                         example_world) = Exited 1"
    by (rule conjunct1)
  have 2: "stderr (snd (main (example_env True ''4'') [''bom_bfr_format.py'', ''board.xml'']
                      example_world))
       = ''Usage  bom_bfr_format.py <generic_netlist.xml> <output.csv> <QTY>'' @ [CHR 0x0A]"
    by (rule trans [OF t [THEN conjunct2, THEN conjunct1]]) code_simp
  from t have "files (snd (main (example_env True ''4'') [''bom_bfr_format.py'', ''board.xml'']
                     example_world)) = files example_world"
    by blast
  then have 3: "files (snd (main (example_env True ''4'') [''bom_bfr_format.py'', ''board.xml'']
                     example_world)) ''board_BOM.csv'' = None"
    by (simp add: example_world_def)
  from h 1 2 3 show ?thesis by blast
qed






end
